theory Spec2Isabelle
  imports Main "HOL-Library.Char_ord" "HOL-Library.List_Lexorder" "HOL-Library.AList"
begin

section \<open>Values, parse results and datatypes (types.ts)\<close>

text \<open>
  The library is TypeScript: a datatype's output type \<open>Out\<close> is erased at run time, and
  the facade mixes datatypes of different output types in one schema object. The values a
  datatype parses to are therefore modelled by one universe of JavaScript values.
  Numbers are kept abstract (\<open>'n\<close>): the library only produces them with \<open>parseInt\<close> and
  prints them with \<open>toFixed\<close>, two built-ins of the language that the integer datatype
  takes as parameters below. Strings are \<open>string\<close>.
\<close>

datatype 'n jsval =
    Undefined
  | Null
  | Bool bool
  | Num 'n
  | Str string
  | Arr "'n jsval list"

text \<open>
  \<open>TDtParseOutput<T>\<close>: \<open>{ valid: true; value: T } | { valid: false; error: string }\<close>.
\<close>

datatype 'n TDtParseOutput =
    Valid "'n jsval"
  | Invalid string

fun valid :: "'n TDtParseOutput \<Rightarrow> bool" where
  "valid (Valid v) = True"
| "valid (Invalid e) = False"

text \<open>
  What a call of \<open>serialize\<close> can throw. The built-in datatypes throw nothing themselves;
  a \<open>TypeError\<close> is what the engine raises when they call a method that the value does
  not have, or iterate a value that is not iterable. \<open>IllTyped\<close> marks an argument that
  the declared parameter type of \<open>serialize\<close> excludes and on which the engine raises
  nothing (\<open>rString().serialize(5)\<close> is \<open>[5]\<close>, not a list of strings): such a call is
  outside the typed program, and the model says nothing more about it.
\<close>

datatype js_error =
    Error string
  | TypeError string
  | IllTyped

text \<open>
  \<open>interface TDatatype<Out> { readonly name: string; parse: (input: string[]) =>
  TDtParseOutput<Out>; serialize: (output: Out) => string[] }\<close>.
\<close>

record 'n TDatatype =
  name :: string
  parse :: "string list \<Rightarrow> 'n TDtParseOutput"
  serialize :: "'n jsval \<Rightarrow> js_error + string list"

section \<open>The built-in datatypes\<close>

text \<open>\<open>getFirst\<close>: \<open>null\<close> on the empty array, \<open>input[0]\<close> otherwise.\<close>

fun getFirst :: "string list \<Rightarrow> string option" where
  "getFirst [] = None"
| "getFirst (x # xs) = Some x"

definition rString :: "'n TDatatype" where
  "rString =
     \<lparr> name = ''String'',
       parse = (\<lambda>input.
         case getFirst input of
           None \<Rightarrow> Valid Null
         | Some last' \<Rightarrow> Valid (Str last')),
       serialize = (\<lambda>output.
         case output of
           Null \<Rightarrow> Inr []
         | Str s \<Rightarrow> Inr [s]
         | _ \<Rightarrow> Inl IllTyped) \<rparr>"

text \<open>
  The integer datatype calls \<open>parseInt(last, 10)\<close>, \<open>Number.isNaN\<close>, \<open>Number.isFinite\<close>
  and \<open>Number.prototype.toFixed\<close>. They are built-ins of the language on floating-point
  numbers, taken here as parameters.
\<close>

record 'n number_builtins =
  parseInt10 :: "string \<Rightarrow> 'n"
  isNaN :: "'n \<Rightarrow> bool"
  isFinite :: "'n \<Rightarrow> bool"
  toFixed :: "'n \<Rightarrow> string"

definition rInteger :: "'n number_builtins \<Rightarrow> 'n TDatatype" where
  "rInteger js =
     \<lparr> name = ''Integer'',
       parse = (\<lambda>input.
         case getFirst input of
           None \<Rightarrow> Valid Null
         | Some last' \<Rightarrow>
             (let parsed = parseInt10 js last' in
              if isNaN js parsed \<or> \<not> isFinite js parsed then Invalid ''Invalid integer''
              else if toFixed js parsed \<noteq> last' then Invalid ''Invalid integer''
              else Valid (Num parsed))),
       serialize = (\<lambda>output.
         case output of
           Null \<Rightarrow> Inr []
         | Num n \<Rightarrow> Inr [toFixed js n]
         | Undefined \<Rightarrow> Inl (TypeError ''Cannot read properties of undefined'')
         | _ \<Rightarrow> Inl (TypeError ''output.toFixed is not a function'')) \<rparr>"

definition rPresent :: "'n TDatatype" where
  "rPresent =
     \<lparr> name = ''Present'',
       parse = (\<lambda>input. Valid (Bool (getFirst input \<noteq> None))),
       serialize = (\<lambda>output. if output = Bool True then Inr [''''] else Inr []) \<rparr>"

text \<open>
  A \<open>RegExp\<close> as the library uses it: its \<open>source\<close> (for the datatype's name) and its
  \<open>test\<close> method. The regular expression is taken without the \<open>g\<close> and \<open>y\<close> flags,
  with which \<open>test\<close> would keep a position between calls.
\<close>

record RegExp =
  source :: string
  test :: "string \<Rightarrow> bool"

definition rRegex :: "RegExp \<Rightarrow> 'n TDatatype" where
  "rRegex regex =
     \<lparr> name = ''Regex<'' @ source regex @ ''>'',
       parse = (\<lambda>input.
         case getFirst input of
           None \<Rightarrow> Valid Null
         | Some last' \<Rightarrow>
             if \<not> test regex last' then Invalid ''Invalid value''
             else Valid (Str last')),
       serialize = (\<lambda>output.
         case output of
           Null \<Rightarrow> Inr []
         | Str s \<Rightarrow> Inr [s]
         | _ \<Rightarrow> Inl IllTyped) \<rparr>"

text \<open>\<open>Array.prototype.join\<close> on an array of strings.\<close>

fun join :: "string \<Rightarrow> string list \<Rightarrow> string" where
  "join sep [] = []"
| "join sep [x] = x"
| "join sep (x # y # ys) = x @ sep @ join sep (y # ys)"

definition rEnum :: "string list \<Rightarrow> 'n TDatatype" where
  "rEnum vals =
     \<lparr> name = ''Enum<'' @ join '' | '' vals @ ''>'',
       parse = (\<lambda>input.
         case getFirst input of
           None \<Rightarrow> Valid Null
         | Some last' \<Rightarrow>
             if last' \<notin> set vals then Invalid ''Invalid value''
             else Valid (Str last')),
       serialize = (\<lambda>output.
         case output of
           Null \<Rightarrow> Inr []
         | Str s \<Rightarrow> Inr [s]
         | _ \<Rightarrow> Inl IllTyped) \<rparr>"

definition rRequired :: "'n TDatatype \<Rightarrow> 'n TDatatype" where
  "rRequired parser =
     \<lparr> name = ''Required<'' @ name parser @ ''>'',
       parse = (\<lambda>input.
         case parse parser input of
           Invalid e \<Rightarrow> Invalid e
         | Valid v \<Rightarrow>
             if v = Null \<or> v = Undefined then Invalid ''Missing value''
             else Valid v),
       serialize = (\<lambda>output. serialize parser output) \<rparr>"

text \<open>
  \<open>rMultiple(subType).parse\<close>: the \<open>for\<close> loop over \<open>input\<close>, with the array \<open>values\<close>
  it pushes to as accumulator; the \<open>return\<close> inside the loop leaves it at the first
  element that the wrapped datatype rejects.
\<close>

fun rMultiple_parse :: "'n TDatatype \<Rightarrow> string list \<Rightarrow> 'n jsval list \<Rightarrow> 'n TDtParseOutput" where
  "rMultiple_parse subType [] vals = Valid (Arr vals)"
| "rMultiple_parse subType (v # input) vals =
     (case parse subType [v] of
        Invalid e \<Rightarrow> Invalid ''Invalid value''
      | Valid parsed \<Rightarrow> rMultiple_parse subType input (vals @ [parsed]))"

text \<open>
  \<open>rMultiple(subType).serialize\<close>: the loop over \<open>output\<close> spreads each element's
  serialization into \<open>values\<close>. \<open>for (const value of output)\<close> throws on a value
  that is not iterable (\<open>null\<close>, which a schema update may pass for any field, is
  one); a string is iterable, but no \<open>Out[]\<close>.
\<close>

fun rMultiple_serialize :: "'n TDatatype \<Rightarrow> 'n jsval list \<Rightarrow> string list \<Rightarrow> js_error + string list" where
  "rMultiple_serialize subType [] vals = Inr vals"
| "rMultiple_serialize subType (v # output) vals =
     (case serialize subType v of
        Inl e \<Rightarrow> Inl e
      | Inr s \<Rightarrow> rMultiple_serialize subType output (vals @ s))"

definition rMultiple :: "'n TDatatype \<Rightarrow> 'n TDatatype" where
  "rMultiple subType =
     \<lparr> name = ''Multiple<'' @ name subType @ ''>'',
       parse = (\<lambda>input. rMultiple_parse subType input []),
       serialize = (\<lambda>output.
         case output of
           Arr vs \<Rightarrow> rMultiple_serialize subType vs []
         | Str s \<Rightarrow> Inl IllTyped
         | _ \<Rightarrow> Inl (TypeError ''output is not iterable'')) \<rparr>"

section \<open>The ordered query sequence (URLSearchParams)\<close>

text \<open>
  A \<open>URLSearchParams\<close> object is its list of name-value pairs. The methods the facade
  calls: \<open>getAll\<close>, \<open>delete\<close>, \<open>sort\<close> (stable, by the names' code units).
\<close>

type_synonym URLSearchParams = "(string \<times> string) list"

definition URLSearchParams_getAll :: "URLSearchParams \<Rightarrow> string \<Rightarrow> string list" where
  "URLSearchParams_getAll usp nm = map snd (filter (\<lambda>e. fst e = nm) usp)"

definition URLSearchParams_delete :: "URLSearchParams \<Rightarrow> string \<Rightarrow> URLSearchParams" where
  "URLSearchParams_delete usp nm = filter (\<lambda>e. fst e \<noteq> nm) usp"

definition URLSearchParams_sort :: "URLSearchParams \<Rightarrow> URLSearchParams" where
  "URLSearchParams_sort usp = sort_key fst usp"

section \<open>The facade (safeSearchParams)\<close>

text \<open>
  \<open>safeSearchParams(init)\<close> closes over the sequence and over \<open>cache\<close>, a
  \<open>Map<string, string[]>\<close> that \<open>getAllFromCache\<close> fills. The closure's state is a record;
  a read returns its result with the state it leaves.
\<close>

record TSafeSearchParams =
  urlSearchParams :: URLSearchParams
  cache :: "(string \<times> string list) list"

definition safeSearchParams :: "URLSearchParams \<Rightarrow> TSafeSearchParams" where
  "safeSearchParams init = \<lparr> urlSearchParams = init, cache = [] \<rparr>"

definition getAllFromCache :: "string \<Rightarrow> TSafeSearchParams \<Rightarrow> string list \<times> TSafeSearchParams" where
  "getAllFromCache nm S =
     (case map_of (cache S) nm of
        Some all \<Rightarrow> (all, S)
      | None \<Rightarrow>
          (let all = URLSearchParams_getAll (urlSearchParams S) nm
           in (all, S\<lparr>cache := AList.update nm all (cache S)\<rparr>)))"

definition getInternal :: "string \<Rightarrow> 'n TDatatype \<Rightarrow> TSafeSearchParams \<Rightarrow> 'n TDtParseOutput \<times> TSafeSearchParams" where
  "getInternal nm type S =
     (let (all, S') = getAllFromCache nm S
      in (parse type all, S'))"

definition get :: "string \<Rightarrow> 'n TDatatype \<Rightarrow> TSafeSearchParams \<Rightarrow> 'n jsval \<times> TSafeSearchParams" where
  "get nm type S =
     (let (parsed, S') = getInternal nm type S
      in case parsed of
           Valid v \<Rightarrow> (v, S')
         | Invalid e \<Rightarrow> (Null, S'))"

text \<open>
  \<open>createSafeSearchParamsErreur\<close> (erreur.ts): an \<open>Error\<close> with the message below, to
  which the store of \<open>@dldc/erreur\<close> attaches the data \<open>{ property, datatype, values,
  error }\<close>.
\<close>

record 'n TSafeSearchParamsErreurData =
  dtype :: "'n TDatatype"
  property :: string
  raw_values :: "string list"
  error :: string

datatype 'n SafeSearchParamsErreur =
  SafeSearchParamsErreur (message: string) (data: "'n TSafeSearchParamsErreurData")

definition createSafeSearchParamsErreur ::
  "string \<Rightarrow> 'n TDatatype \<Rightarrow> string list \<Rightarrow> string \<Rightarrow> 'n SafeSearchParamsErreur" where
  \<open>createSafeSearchParamsErreur prop type vals err =
     SafeSearchParamsErreur
       (''Failed to validate '' @ name type @ '' rule for property "'' @ prop @
        ''" with values: '' @ join '', '' vals @ ''. '' @ err)
       \<lparr> dtype = type, property = prop, raw_values = vals, error = err \<rparr>\<close>

definition getOrThrow ::
  "string \<Rightarrow> 'n TDatatype \<Rightarrow> TSafeSearchParams \<Rightarrow>
     ('n SafeSearchParamsErreur + 'n jsval) \<times> TSafeSearchParams" where
  "getOrThrow nm type S =
     (let (parsed, S') = getInternal nm type S
      in case parsed of
           Invalid e \<Rightarrow>
             (let (all, S'') = getAllFromCache nm S'
              in (Inl (createSafeSearchParamsErreur nm type all e), S''))
         | Valid v \<Rightarrow> (Inr v, S'))"

definition has :: "string \<Rightarrow> 'n TDatatype \<Rightarrow> TSafeSearchParams \<Rightarrow> bool \<times> TSafeSearchParams" where
  "has nm type S =
     (let (all, S') = getAllFromCache nm S
      in if length all = 0 then (False, S')
         else (valid (parse type all), S'))"

text \<open>
  The updates return a new facade, made by \<open>safeSearchParams\<close> from a copy of the sequence;
  one that serializes a value throws what \<open>serialize\<close> throws.
\<close>

definition append' :: "string \<Rightarrow> 'n TDatatype \<Rightarrow> 'n jsval \<Rightarrow> TSafeSearchParams \<Rightarrow> js_error + TSafeSearchParams" where
  "append' nm type v S =
     (case serialize type v of
        Inl e \<Rightarrow> Inl e
      | Inr serialized \<Rightarrow> Inr (safeSearchParams (urlSearchParams S @ map (Pair nm) serialized)))"

definition del :: "string \<Rightarrow> TSafeSearchParams \<Rightarrow> TSafeSearchParams" where
  "del nm S = safeSearchParams (URLSearchParams_delete (urlSearchParams S) nm)"

definition sort' :: "TSafeSearchParams \<Rightarrow> TSafeSearchParams" where
  "sort' S = safeSearchParams (URLSearchParams_sort (urlSearchParams S))"

subsection \<open>Plain objects used as dictionaries\<close>

text \<open>
  \<open>setInternal\<close> and \<open>setObj\<close> keep their dictionaries (\<open>values\<close>, \<open>queues\<close>,
  \<open>nextValues\<close>, the schema \<open>obj\<close>) in plain objects. A plain object is modelled by
  the list of its own properties, in the order in which \<open>Object.entries\<close> enumerates
  them. Reading \<open>o[key]\<close> is not a dictionary lookup: when \<open>o\<close> has no own property
  \<open>key\<close>, the read goes on to the prototype of \<open>o\<close>, which for an object literal and
  for the result of \<open>Object.fromEntries\<close> is \<open>Object.prototype\<close>. Its properties are
  functions; the code observes their \<open>length\<close> (the number of declared parameters) and
  that they have neither a \<open>shift\<close> nor a \<open>serialize\<close> method. The table is that of Deno,
  the runtime of the repository (deno.json), which removes the accessor \<open>__proto__\<close>; a
  runtime that keeps it has one more inherited name.
\<close>

type_synonym 'a js_object = "(string \<times> 'a) list"

definition Object_prototype :: "(string \<times> nat) list" where
  "Object_prototype =
     [(''constructor'', 1),
      (''__defineGetter__'', 2),
      (''__defineSetter__'', 2),
      (''hasOwnProperty'', 1),
      (''__lookupGetter__'', 1),
      (''__lookupSetter__'', 1),
      (''isPrototypeOf'', 1),
      (''propertyIsEnumerable'', 1),
      (''toString'', 0),
      (''valueOf'', 0),
      (''toLocaleString'', 0)]"

datatype 'a property_value =
    NoProperty
  | OwnProperty 'a
  | Inherited nat

definition obj_get :: "'a js_object \<Rightarrow> string \<Rightarrow> 'a property_value" where
  "obj_get obj key =
     (case map_of obj key of
        Some v \<Rightarrow> OwnProperty v
      | None \<Rightarrow>
          (case map_of Object_prototype key of
             Some len \<Rightarrow> Inherited len
           | None \<Rightarrow> NoProperty))"

text \<open>
  The assignment \<open>o[key] = v\<close>: an own property keeps its place, a new one is enumerated
  last. (For a key that is an array index the enumeration order is numeric instead;
  \<open>setObj\<close> assigns the keys of \<open>values\<close> in the order of their enumeration, which
  already has the array indices first, so the enumeration of \<open>nextValues\<close> is the order
  of assignment there too.)
\<close>

definition obj_set :: "'a js_object \<Rightarrow> string \<Rightarrow> 'a \<Rightarrow> 'a js_object" where
  "obj_set obj key v = AList.update key v obj"

subsection \<open>The merge/update algorithm\<close>

text \<open>
  The first loop of \<open>setInternal\<close>, over the entries of the sequence. \<open>queue.shift()\<close>
  removes the first element of the array stored in \<open>queues\<close>, so \<open>queues\<close> is part of
  the loop's state, with \<open>nextEntries\<close>. When \<open>queues[key]\<close> is an inherited function,
  it is not \<open>undefined\<close>; its \<open>length\<close> is compared with 0, and \<open>queue.shift()\<close> is a
  call of \<open>undefined\<close>, a TypeError.
\<close>

fun setInternal_walk ::
  "URLSearchParams \<Rightarrow> string list js_object \<Rightarrow> URLSearchParams \<Rightarrow>
     js_error + (URLSearchParams \<times> string list js_object)" where
  "setInternal_walk [] queues nextEntries = Inr (nextEntries, queues)"
| "setInternal_walk ((key, val) # entries) queues nextEntries =
     (case obj_get queues key of
        NoProperty \<Rightarrow> setInternal_walk entries queues (nextEntries @ [(key, val)])
      | OwnProperty queue \<Rightarrow>
          (case queue of
             [] \<Rightarrow> setInternal_walk entries queues nextEntries
           | v # rest \<Rightarrow>
               setInternal_walk entries (obj_set queues key rest) (nextEntries @ [(key, v)]))
      | Inherited len \<Rightarrow>
          if len = 0 then setInternal_walk entries queues nextEntries
          else Inl (TypeError ''queue.shift is not a function''))"

text \<open>
  The second loop: what is left in the queues, in the order of \<open>Object.entries\<close>.
  \<open>setInternal\<close> starts the walk on \<open>queues\<close>, a copy of \<open>values\<close> with the same keys
  in the same order, and makes the new facade from \<open>nextEntries\<close>.
\<close>

definition remaining :: "string list js_object \<Rightarrow> URLSearchParams" where
  "remaining queues = concat (map (\<lambda>(key, queue). map (Pair key) queue) queues)"

definition setInternal :: "string list js_object \<Rightarrow> TSafeSearchParams \<Rightarrow> js_error + TSafeSearchParams" where
  "setInternal vals S =
     (case setInternal_walk (urlSearchParams S) vals [] of
        Inl e \<Rightarrow> Inl e
      | Inr (nextEntries, queues) \<Rightarrow> Inr (safeSearchParams (nextEntries @ remaining queues)))"

definition set' :: "string \<Rightarrow> 'n TDatatype \<Rightarrow> 'n jsval \<Rightarrow> TSafeSearchParams \<Rightarrow> js_error + TSafeSearchParams" where
  "set' nm type v S =
     (case serialize type v of
        Inl e \<Rightarrow> Inl e
      | Inr serialized \<Rightarrow> setInternal [(nm, serialized)] S)"

text \<open>
  The loop of \<open>setObj\<close> over \<open>Object.entries(values)\<close>, with \<open>nextValues\<close> as its
  state. \<open>obj[name]\<close> is a read through the prototype as well: for an inherited name it
  is a function, not \<open>undefined\<close>, and \<open>type.serialize(value)\<close> is a call of
  \<open>undefined\<close>.
\<close>

fun setObj_loop ::
  "'n TDatatype js_object \<Rightarrow> 'n jsval js_object \<Rightarrow> string list js_object \<Rightarrow>
     js_error + string list js_object" where
  "setObj_loop obj [] nextValues = Inr nextValues"
| \<open>setObj_loop obj ((nm, v) # vals) nextValues =
     (case obj_get obj nm of
        NoProperty \<Rightarrow> Inl (Error (''Type for "'' @ nm @ ''" not found in object''))
      | Inherited len \<Rightarrow> Inl (TypeError ''type.serialize is not a function'')
      | OwnProperty type \<Rightarrow>
          (case serialize type v of
             Inl e \<Rightarrow> Inl e
           | Inr serialized \<Rightarrow> setObj_loop obj vals (obj_set nextValues nm serialized)))\<close>

definition setObj ::
  "'n TDatatype js_object \<Rightarrow> 'n jsval js_object \<Rightarrow> TSafeSearchParams \<Rightarrow> js_error + TSafeSearchParams" where
  "setObj obj vals S =
     (case setObj_loop obj vals [] of
        Inl e \<Rightarrow> Inl e
      | Inr nextValues \<Rightarrow> setInternal nextValues S)"

text \<open>
  The cache of a facade only ever holds what \<open>getAll\<close> returned on the facade's own
  sequence, which never changes: every facade that the library hands out starts with an
  empty cache, and \<open>getAllFromCache\<close> adds nothing else.
\<close>

definition cache_consistent :: "TSafeSearchParams \<Rightarrow> bool" where
  "cache_consistent S =
     list_all (\<lambda>(k, all). all = URLSearchParams_getAll (urlSearchParams S) k) (cache S)"

subsection \<open>The merge as the specification words it\<close>

text \<open>
  The specification describes the result of the merge by occurrences: the Nth entry of
  a key of the mapping takes the mapping's Nth value for that key, in place, and is
  dropped when the mapping has no Nth value; entries of other keys stay; the values of
  the mapping that found no entry follow at the very end, key by key in the order of the
  mapping. \<open>seen k\<close> counts the entries of \<open>k\<close> already passed.
\<close>

fun replace_in_place ::
  "(string \<rightharpoonup> string list) \<Rightarrow> (string \<Rightarrow> nat) \<Rightarrow> URLSearchParams \<Rightarrow> URLSearchParams" where
  "replace_in_place new seen [] = []"
| "replace_in_place new seen ((k, v) # es) =
     (case new k of
        None \<Rightarrow> (k, v) # replace_in_place new seen es
      | Some q \<Rightarrow>
          (if seen k < length q then [(k, q ! seen k)] else []) @
          replace_in_place new (\<lambda>a. if a = k then Suc (seen k) else seen a) es)"

definition merge_spec :: "string list js_object \<Rightarrow> URLSearchParams \<Rightarrow> URLSearchParams" where
  "merge_spec vals es =
     replace_in_place (map_of vals) (\<lambda>k. 0) es @
     concat (map (\<lambda>(k, q). map (Pair k) (drop (count_list (map fst es) k) q)) vals)"

section \<open>Properties\<close>

subsection \<open>The cache\<close>

lemma cache_consistent_safeSearchParams: "cache_consistent (safeSearchParams init)"
  by (simp add: cache_consistent_def safeSearchParams_def)

lemma set_update_subset: "set (AList.update k v al) \<subseteq> insert (k, v) (set al)"
  by (induction al) auto

lemma getAllFromCache_fst:
  "cache_consistent S \<Longrightarrow>
   fst (getAllFromCache nm S) = URLSearchParams_getAll (urlSearchParams S) nm"
  by (auto simp: getAllFromCache_def cache_consistent_def list_all_iff Let_def
           split: option.splits dest!: map_of_SomeD)

lemma getAllFromCache_urlSearchParams:
  "urlSearchParams (snd (getAllFromCache nm S)) = urlSearchParams S"
  by (simp add: getAllFromCache_def Let_def split: option.splits)

lemma getAllFromCache_consistent:
  "cache_consistent S \<Longrightarrow> cache_consistent (snd (getAllFromCache nm S))"
  using set_update_subset [of nm "URLSearchParams_getAll (urlSearchParams S) nm" "cache S"]
  by (auto simp: getAllFromCache_def cache_consistent_def list_all_iff Let_def
           split: option.splits)

lemma getAllFromCache_again:
  "cache_consistent S \<Longrightarrow>
   fst (getAllFromCache nm (snd (getAllFromCache nm S))) =
   URLSearchParams_getAll (urlSearchParams S) nm"
  by (simp add: getAllFromCache_fst getAllFromCache_consistent getAllFromCache_urlSearchParams)

lemma get_fst:
  assumes "cache_consistent S"
  shows "fst (get nm type S) =
     (case parse type (URLSearchParams_getAll (urlSearchParams S) nm) of
        Valid v \<Rightarrow> v
      | Invalid e \<Rightarrow> Null)"
  using getAllFromCache_fst [OF assms, of nm]
  by (simp add: get_def getInternal_def split_beta Let_def split: TDtParseOutput.splits)

lemma getAll_delete: "URLSearchParams_getAll (URLSearchParams_delete usp nm) nm = []"
  by (simp add: URLSearchParams_getAll_def URLSearchParams_delete_def)

lemma get_del:
  "fst (get nm type (del nm S)) = (case parse type [] of Valid v \<Rightarrow> v | Invalid e \<Rightarrow> Null)"
  using get_fst [OF cache_consistent_safeSearchParams, of nm type
      "URLSearchParams_delete (urlSearchParams S) nm"]
  by (simp add: del_def getAll_delete safeSearchParams_def)

text \<open>
  Consistency of the cache is an invariant of the facade: it holds of every facade that
  \<open>safeSearchParams\<close> or an update returns, and the reads preserve it, as they preserve
  the sequence.
\<close>

lemma reads_keep_cache_consistent:
  assumes "cache_consistent S"
  shows "cache_consistent (snd (get nm type S))"
    and "cache_consistent (snd (getOrThrow nm type S))"
    and "cache_consistent (snd (has nm type' S))"
    and "urlSearchParams (snd (get nm type S)) = urlSearchParams S"
    and "urlSearchParams (snd (getOrThrow nm type S)) = urlSearchParams S"
    and "urlSearchParams (snd (has nm type' S)) = urlSearchParams S"
  using getAllFromCache_consistent [OF assms, of nm]
    getAllFromCache_consistent [OF getAllFromCache_consistent [OF assms, of nm], of nm]
    getAllFromCache_urlSearchParams [of nm S]
    getAllFromCache_urlSearchParams [of nm "snd (getAllFromCache nm S)"]
  by (auto simp: get_def getOrThrow_def has_def getInternal_def split_beta Let_def
           split: TDtParseOutput.splits)

lemma updates_return_cache_consistent:
  "cache_consistent (del nm S)"
  "cache_consistent (sort' S)"
  "setInternal vals S = Inr S' \<Longrightarrow> cache_consistent S'"
  "set' nm type v S = Inr S' \<Longrightarrow> cache_consistent S'"
  "setObj obj vs S = Inr S' \<Longrightarrow> cache_consistent S'"
  "append' nm type v S = Inr S' \<Longrightarrow> cache_consistent S'"
  by (auto simp: del_def sort'_def setInternal_def set'_def setObj_def append'_def
        cache_consistent_safeSearchParams split: sum.splits prod.splits)

subsection \<open>Reads\<close>

text \<open>
  C3. \<open>getOrThrow(name, type)\<close> throws exactly when \<open>type.parse\<close>, applied to the raw
  values stored under \<open>name\<close>, returns \<open>Invalid\<close>. The error then has the message
  \<open>Failed to validate <type.name> rule for property "<name>" with values: <the raw
  values joined by ", ">. <the parse error>\<close> and the data \<open>{ property = name, datatype =
  type, values = the raw values, error = the parse error }\<close>. On \<open>Valid\<close> the parsed
  value is returned whatever it is, \<open>null\<close> included.
\<close>

theorem getOrThrow_throws_iff_invalid:
  assumes "cache_consistent S"
  shows \<open>fst (getOrThrow nm type S) =
     (let all = URLSearchParams_getAll (urlSearchParams S) nm in
      case parse type all of
        Valid v \<Rightarrow> Inr v
      | Invalid e \<Rightarrow>
          Inl (SafeSearchParamsErreur
                 (''Failed to validate '' @ name type @ '' rule for property "'' @ nm @
                  ''" with values: '' @ join '', '' all @ ''. '' @ e)
                 \<lparr> dtype = type, property = nm, raw_values = all, error = e \<rparr>))\<close>
  using getAllFromCache_fst [OF assms, of nm] getAllFromCache_again [OF assms, of nm]
  by (simp add: getOrThrow_def getInternal_def createSafeSearchParamsErreur_def split_beta
        Let_def split: TDtParseOutput.splits)

theorem getOrThrow_throws_iff_invalid_witness:
  \<open>cache_consistent (safeSearchParams [(''a'', ''1''), (''c'', ''hey''), (''c'', ''ho'')]) \<and>
   fst (getOrThrow ''c'' (rEnum [''1'', ''2''] :: unit TDatatype)
          (safeSearchParams [(''a'', ''1''), (''c'', ''hey''), (''c'', ''ho'')])) =
     Inl (SafeSearchParamsErreur
            ''Failed to validate Enum<1 | 2> rule for property "c" with values: hey, ho. Invalid value''
            \<lparr> dtype = rEnum [''1'', ''2''], property = ''c'', raw_values = [''hey'', ''ho''],
              error = ''Invalid value'' \<rparr>) \<and>
   fst (getOrThrow ''d'' (rEnum [''1'', ''2''] :: unit TDatatype)
          (safeSearchParams [(''a'', ''1''), (''c'', ''hey''), (''c'', ''ho'')])) = Inr Null\<close>
proof -
  let ?S = "safeSearchParams [(''a'', ''1''), (''c'', ''hey''), (''c'', ''ho'')]"
  have c: "cache_consistent ?S"
    by (simp add: cache_consistent_def safeSearchParams_def)
  have all_c: "URLSearchParams_getAll (urlSearchParams ?S) ''c'' = [''hey'', ''ho'']"
    and all_d: "URLSearchParams_getAll (urlSearchParams ?S) ''d'' = []"
    by (simp_all add: URLSearchParams_getAll_def safeSearchParams_def)
  have p_c: "parse (rEnum [''1'', ''2''] :: unit TDatatype) [''hey'', ''ho''] = Invalid ''Invalid value''"
    and p_d: "parse (rEnum [''1'', ''2''] :: unit TDatatype) [] = Valid Null"
    and n: \<open>name (rEnum [''1'', ''2''] :: unit TDatatype) = ''Enum<1 | 2>''\<close>
    by (simp_all add: rEnum_def)
  show ?thesis
    using getOrThrow_throws_iff_invalid [OF c, of "''c''" "rEnum [''1'', ''2''] :: unit TDatatype"]
      getOrThrow_throws_iff_invalid [OF c, of "''d''" "rEnum [''1'', ''2''] :: unit TDatatype"]
    by (simp add: c all_c all_d p_c p_d n Let_def)
qed

text \<open>
  C4, as amended. \<open>get(name, type)\<close> returns the parsed value when \<open>type.parse\<close> on the
  key's raw values is \<open>Valid\<close>, and \<open>null\<close> when it is \<open>Invalid\<close>. A parse failure
  reads like the absent key (the same read on the facade that \<open>delete(name)\<close> returns)
  exactly for the datatypes that parse the empty list to \<open>null\<close> or reject it; a datatype
  that parses the empty list to another value, as \<open>rMultiple\<close> does, tells the two apart.
\<close>

theorem get_returns_null_on_invalid:
  assumes "cache_consistent S"
  shows "fst (get nm type S) =
       (case parse type (URLSearchParams_getAll (urlSearchParams S) nm) of
          Valid v \<Rightarrow> v
        | Invalid e \<Rightarrow> Null) \<and>
     (\<not> valid (parse type (URLSearchParams_getAll (urlSearchParams S) nm)) \<longrightarrow>
        (fst (get nm type S) = fst (get nm type (del nm S))) =
        (parse type [] = Valid Null \<or> \<not> valid (parse type [])))"
proof -
  have r: "fst (get nm type S) =
       (case parse type (URLSearchParams_getAll (urlSearchParams S) nm) of
          Valid v \<Rightarrow> v
        | Invalid e \<Rightarrow> Null)"
    by (rule get_fst [OF assms])
  show ?thesis
    unfolding r get_del
    by (cases "parse type []";
        cases "parse type (URLSearchParams_getAll (urlSearchParams S) nm)") auto
qed

theorem get_returns_null_on_invalid_witness:
  "cache_consistent (safeSearchParams [(''a'', ''1''), (''c'', ''hey'')]) \<and>
   \<not> valid (parse (rEnum [''1'', ''2''] :: unit TDatatype) [''hey'']) \<and>
   fst (get ''c'' (rEnum [''1'', ''2''] :: unit TDatatype)
          (safeSearchParams [(''a'', ''1''), (''c'', ''hey'')])) = Null \<and>
   fst (get ''c'' (rEnum [''1'', ''2''] :: unit TDatatype)
          (safeSearchParams [(''a'', ''1''), (''c'', ''hey'')])) =
   fst (get ''c'' (rEnum [''1'', ''2''] :: unit TDatatype)
          (del ''c'' (safeSearchParams [(''a'', ''1''), (''c'', ''hey'')]))) \<and>
   fst (get ''a'' (rEnum [''1'', ''2''] :: unit TDatatype)
          (safeSearchParams [(''a'', ''1''), (''c'', ''hey'')])) = Str ''1''"
proof -
  let ?S = "safeSearchParams [(''a'', ''1''), (''c'', ''hey'')]"
  have c: "cache_consistent ?S"
    by (simp add: cache_consistent_def safeSearchParams_def)
  have all_c: "URLSearchParams_getAll (urlSearchParams ?S) ''c'' = [''hey'']"
    and all_a: "URLSearchParams_getAll (urlSearchParams ?S) ''a'' = [''1'']"
    by (simp_all add: URLSearchParams_getAll_def safeSearchParams_def)
  have p_c: "parse (rEnum [''1'', ''2''] :: unit TDatatype) [''hey''] = Invalid ''Invalid value''"
    and p_a: "parse (rEnum [''1'', ''2''] :: unit TDatatype) [''1''] = Valid (Str ''1'')"
    and p_e: "parse (rEnum [''1'', ''2''] :: unit TDatatype) [] = Valid Null"
    by (simp_all add: rEnum_def)
  show ?thesis
    using get_returns_null_on_invalid [OF c, of "''c''" "rEnum [''1'', ''2''] :: unit TDatatype"]
      get_returns_null_on_invalid [OF c, of "''a''" "rEnum [''1'', ''2''] :: unit TDatatype"]
    by (auto simp add: c all_c all_a p_c p_a p_e)
qed

text \<open>
  C4 as the claim states it fails: with \<open>rMultiple\<close> of an enumeration, the read of a
  key whose values do not parse is \<open>null\<close>, and the read of an absent key is the empty
  array.
\<close>

theorem get_failure_not_absence_counterexample:
  "\<not> valid (parse (rMultiple (rEnum [''1'', ''2'']) :: unit TDatatype) [''hey'']) \<and>
   fst (get ''c'' (rMultiple (rEnum [''1'', ''2'']) :: unit TDatatype)
          (safeSearchParams [(''a'', ''1''), (''c'', ''hey'')])) = Null \<and>
   fst (get ''c'' (rMultiple (rEnum [''1'', ''2'']) :: unit TDatatype)
          (safeSearchParams [(''a'', ''1'')])) = Arr []"
  by (simp add: get_def getInternal_def getAllFromCache_def safeSearchParams_def
        URLSearchParams_getAll_def rMultiple_def rEnum_def Let_def)

text \<open>
  C5. \<open>has(name, type)\<close> is true exactly when \<open>name\<close> has at least one raw value and
  \<open>type.parse\<close> accepts the list of all of them; for an absent key it is false, whatever
  the datatype makes of the empty list.
\<close>

theorem has_iff_present_and_valid:
  assumes "cache_consistent S"
  shows "fst (has nm type S) =
       (URLSearchParams_getAll (urlSearchParams S) nm \<noteq> [] \<and>
        valid (parse type (URLSearchParams_getAll (urlSearchParams S) nm))) \<and>
     (URLSearchParams_getAll (urlSearchParams S) nm = [] \<longrightarrow> \<not> fst (has nm type S))"
  using getAllFromCache_fst [OF assms, of nm]
  by (simp add: has_def split_beta Let_def)

theorem has_iff_present_and_valid_witness:
  "cache_consistent (safeSearchParams [(''a'', ''1''), (''c'', ''hey'')]) \<and>
   fst (has ''a'' (rEnum [''1'', ''2''] :: unit TDatatype)
          (safeSearchParams [(''a'', ''1''), (''c'', ''hey'')])) \<and>
   \<not> fst (has ''c'' (rEnum [''1'', ''2''] :: unit TDatatype)
          (safeSearchParams [(''a'', ''1''), (''c'', ''hey'')])) \<and>
   valid (parse (rPresent :: unit TDatatype) []) \<and>
   \<not> fst (has ''d'' (rPresent :: unit TDatatype)
          (safeSearchParams [(''a'', ''1''), (''c'', ''hey'')]))"
proof -
  let ?S = "safeSearchParams [(''a'', ''1''), (''c'', ''hey'')]"
  have c: "cache_consistent ?S"
    by (simp add: cache_consistent_def safeSearchParams_def)
  have all: "URLSearchParams_getAll (urlSearchParams ?S) ''c'' = [''hey'']"
    "URLSearchParams_getAll (urlSearchParams ?S) ''a'' = [''1'']"
    "URLSearchParams_getAll (urlSearchParams ?S) ''d'' = []"
    by (simp_all add: URLSearchParams_getAll_def safeSearchParams_def)
  have p: "parse (rEnum [''1'', ''2''] :: unit TDatatype) [''hey''] = Invalid ''Invalid value''"
    "parse (rEnum [''1'', ''2''] :: unit TDatatype) [''1''] = Valid (Str ''1'')"
    "parse (rPresent :: unit TDatatype) [] = Valid (Bool False)"
    by (simp_all add: rEnum_def rPresent_def)
  show ?thesis
    using has_iff_present_and_valid [OF c, of "''a''" "rEnum [''1'', ''2''] :: unit TDatatype"]
      has_iff_present_and_valid [OF c, of "''c''" "rEnum [''1'', ''2''] :: unit TDatatype"]
      has_iff_present_and_valid [OF c, of "''d''" "rPresent :: unit TDatatype"]
    by (simp add: c all p)
qed

subsection \<open>Datatypes\<close>

lemma rMultiple_parse_acc:
  "rMultiple_parse d xs acc =
     (if list_all (\<lambda>x. valid (parse d [x])) xs
      then Valid (Arr (acc @ map (\<lambda>x. case parse d [x] of Valid v \<Rightarrow> v | Invalid e \<Rightarrow> Null) xs))
      else Invalid ''Invalid value'')"
  by (induction xs arbitrary: acc) (auto split: TDtParseOutput.splits)

text \<open>
  C6. \<open>rMultiple(d).parse(xs)\<close> parses each raw value \<open>x\<close> of \<open>xs\<close> on its own, as
  \<open>d.parse([x])\<close>. If one of them is \<open>Invalid\<close>, the result is \<open>Invalid\<close> (with the
  error \<open>Invalid value\<close>) and holds no parsed element; otherwise it is \<open>Valid\<close> with the
  array of the parsed elements, in the order of \<open>xs\<close>.
\<close>

theorem rMultiple_parse_fail_closed:
  "(if \<exists>x\<in>set xs. \<not> valid (parse d [x])
    then parse (rMultiple d) xs = Invalid ''Invalid value''
    else \<exists>vs. parse (rMultiple d) xs = Valid (Arr vs) \<and>
              map (\<lambda>x. parse d [x]) xs = map Valid vs)"
proof (cases "\<exists>x\<in>set xs. \<not> valid (parse d [x])")
  case True
  then show ?thesis
    by (auto simp: rMultiple_def rMultiple_parse_acc list_all_iff)
next
  case False
  then have all: "list_all (\<lambda>x. valid (parse d [x])) xs"
    by (simp add: list_all_iff)
  let ?vs = "map (\<lambda>x. case parse d [x] of Valid v \<Rightarrow> v | Invalid e \<Rightarrow> Null) xs"
  have "map (\<lambda>x. parse d [x]) xs = map Valid ?vs"
    using False by (auto split: TDtParseOutput.splits)
  moreover have "parse (rMultiple d) xs = Valid (Arr ?vs)"
    using all by (simp add: rMultiple_def rMultiple_parse_acc)
  ultimately show ?thesis
    using False by auto
qed

theorem rMultiple_parse_fail_closed_witness:
  "parse (rMultiple (rEnum [''1'', ''2'']) :: unit TDatatype) [''2'', ''x'', ''1''] =
     Invalid ''Invalid value'' \<and>
   parse (rMultiple (rEnum [''1'', ''2'']) :: unit TDatatype) [''2'', ''1'', ''2''] =
     Valid (Arr [Str ''2'', Str ''1'', Str ''2''])"
proof -
  have p: "parse (rEnum [''1'', ''2''] :: unit TDatatype) [''1''] = Valid (Str ''1'')"
    "parse (rEnum [''1'', ''2''] :: unit TDatatype) [''2''] = Valid (Str ''2'')"
    "parse (rEnum [''1'', ''2''] :: unit TDatatype) [''x''] = Invalid ''Invalid value''"
    by (simp_all add: rEnum_def)
  have "parse (rMultiple (rEnum [''1'', ''2'']) :: unit TDatatype) [''2'', ''x'', ''1''] =
     Invalid ''Invalid value''"
    using rMultiple_parse_fail_closed [of "[''2'', ''x'', ''1'']" "rEnum [''1'', ''2''] :: unit TDatatype"]
    by (simp add: p)
  moreover have "parse (rMultiple (rEnum [''1'', ''2'']) :: unit TDatatype) [''2'', ''1'', ''2''] =
     Valid (Arr [Str ''2'', Str ''1'', Str ''2''])"
    using rMultiple_parse_fail_closed [of "[''2'', ''1'', ''2'']" "rEnum [''1'', ''2''] :: unit TDatatype"]
    by (auto simp: p)
  ultimately show ?thesis by simp
qed

text \<open>
  C7. For each of the single-valued datatypes (\<open>rString\<close>, \<open>rInteger\<close>, \<open>rPresent\<close>,
  \<open>rRegex\<close>, \<open>rEnum\<close>), the parse of a list with at least one raw value is the parse of
  its first raw value alone: the other values of a repeated key are ignored.
\<close>

theorem single_valued_first_wins:
  "parse rString (x # xs) = parse rString [x] \<and>
   parse (rInteger js) (x # xs) = parse (rInteger js) [x] \<and>
   parse rPresent (x # xs) = parse rPresent [x] \<and>
   parse (rRegex regex) (x # xs) = parse (rRegex regex) [x] \<and>
   parse (rEnum vals) (x # xs) = parse (rEnum vals) [x]"
  by (simp add: rString_def rInteger_def rPresent_def rRegex_def rEnum_def)

text \<open>
  C10, as amended. \<open>rMultiple(d).parse([])\<close> is \<open>Valid\<close> with the empty array, so
  for a key that has no entry \<open>get(name, rMultiple(d))\<close> returns the empty array, not
  \<open>null\<close>. Of the single-valued datatypes, \<open>rString\<close>, \<open>rInteger\<close>, \<open>rRegex\<close> and
  \<open>rEnum\<close> read an absent key as \<open>null\<close>; \<open>rPresent\<close> reads it as \<open>false\<close>.
\<close>

theorem rMultiple_absent_key_is_empty_array:
  "parse (rMultiple (d :: 'n TDatatype)) [] = Valid (Arr []) \<and>
   (cache_consistent S \<longrightarrow> URLSearchParams_getAll (urlSearchParams S) nm = [] \<longrightarrow>
      fst (get nm (rMultiple d) S) = Arr [] \<and>
      fst (get nm (rMultiple d) S) \<noteq> Null \<and>
      fst (get nm (rString :: 'n TDatatype) S) = Null \<and>
      fst (get nm (rInteger js :: 'n TDatatype) S) = Null \<and>
      fst (get nm (rRegex regex :: 'n TDatatype) S) = Null \<and>
      fst (get nm (rEnum vals :: 'n TDatatype) S) = Null \<and>
      fst (get nm (rPresent :: 'n TDatatype) S) = Bool False)"
  by (simp add: get_fst rMultiple_def rString_def rInteger_def rRegex_def rEnum_def
        rPresent_def)

theorem rMultiple_absent_key_is_empty_array_witness:
  "cache_consistent (safeSearchParams [(''a'', ''1'')]) \<and>
   URLSearchParams_getAll (urlSearchParams (safeSearchParams [(''a'', ''1'')])) ''tag'' = [] \<and>
   fst (get ''tag'' (rMultiple rString :: unit TDatatype) (safeSearchParams [(''a'', ''1'')])) = Arr [] \<and>
   fst (get ''tag'' (rString :: unit TDatatype) (safeSearchParams [(''a'', ''1'')])) = Null \<and>
   fst (get ''tag'' (rPresent :: unit TDatatype) (safeSearchParams [(''a'', ''1'')])) = Bool False"
proof -
  let ?S = "safeSearchParams [(''a'', ''1'')]"
  have c: "cache_consistent ?S"
    by (simp add: cache_consistent_def safeSearchParams_def)
  have a: "URLSearchParams_getAll (urlSearchParams ?S) ''tag'' = []"
    by (simp add: URLSearchParams_getAll_def safeSearchParams_def)
  show ?thesis
    using rMultiple_absent_key_is_empty_array [of "rString :: unit TDatatype" ?S "''tag''"
        "\<lparr> parseInt10 = (\<lambda>s. ()), isNaN = (\<lambda>n. False), isFinite = (\<lambda>n. True),
           toFixed = (\<lambda>n. ''0'') \<rparr>"
        "\<lparr> source = ''^[0-9]+$'', test = (\<lambda>s. s \<noteq> [] \<and> list_all (\<lambda>c. c \<in> set ''0123456789'') s) \<rparr>"
        "[''1'', ''2'']"] c a
    by simp
qed

text \<open>
  C10 as the claim states it fails: \<open>rPresent\<close> is a single-valued datatype, and for a
  key that has no entry \<open>get(name, rPresent())\<close> is \<open>false\<close>, not \<open>null\<close>.
\<close>

theorem rPresent_absent_key_is_false_counterexample:
  "URLSearchParams_getAll (urlSearchParams (safeSearchParams [(''a'', ''1'')])) ''d'' = [] \<and>
   parse (rPresent :: unit TDatatype) [''x'', ''y''] = parse (rPresent :: unit TDatatype) [''x''] \<and>
   fst (get ''d'' (rPresent :: unit TDatatype) (safeSearchParams [(''a'', ''1'')])) = Bool False \<and>
   fst (get ''d'' (rPresent :: unit TDatatype) (safeSearchParams [(''a'', ''1'')])) \<noteq> Null"
  by (simp add: get_def getInternal_def getAllFromCache_def safeSearchParams_def
        URLSearchParams_getAll_def rPresent_def Let_def)

subsection \<open>Schema updates\<close>

lemma update_fresh: "k \<notin> fst ` set al \<Longrightarrow> AList.update k v al = al @ [(k, v)]"
  by (induction al) auto

lemma setObj_loop_missing:
  "\<exists>nm\<in>set (map fst vals). map_of obj nm = None \<Longrightarrow> \<exists>e. setObj_loop obj vals nv = Inl e"
proof (induction vals arbitrary: nv)
  case Nil
  then show ?case by simp
next
  case (Cons a vals)
  obtain nm v where a: "a = (nm, v)" by (cases a)
  show ?case
  proof (cases "map_of obj nm")
    case None
    then show ?thesis
      by (simp add: a obj_get_def split: option.splits)
  next
    case (Some type)
    with Cons.prems a have "\<exists>nm\<in>set (map fst vals). map_of obj nm = None"
      by auto
    from Cons.IH [OF this] Some show ?thesis
      by (simp add: a obj_get_def split: sum.splits)
  qed
qed

lemma setObj_loop_error:
  "\<forall>nm\<in>set (map fst vals). map_of obj nm \<noteq> None \<Longrightarrow> setObj_loop obj vals nv = Inl e \<Longrightarrow>
   \<exists>(nm, v)\<in>set vals. serialize (the (map_of obj nm)) v = Inl e"
proof (induction vals arbitrary: nv)
  case Nil
  then show ?case by simp
next
  case (Cons a vals)
  obtain nm v where a: "a = (nm, v)" by (cases a)
  from Cons.prems a obtain type where t: "map_of obj nm = Some type" by auto
  show ?case
  proof (cases "serialize type v")
    case (Inl e')
    with Cons.prems show ?thesis by (auto simp: a t obj_get_def)
  next
    case (Inr s)
    with Cons.prems have "setObj_loop obj vals (obj_set nv nm s) = Inl e"
      by (simp add: a t obj_get_def)
    from Cons.IH [OF _ this] Cons.prems show ?thesis by auto
  qed
qed

lemma setObj_loop_all:
  "\<forall>nm\<in>set (map fst vals). map_of obj nm \<noteq> None \<Longrightarrow>
   \<forall>(nm, v)\<in>set vals. \<exists>s. serialize (the (map_of obj nm)) v = Inr s \<Longrightarrow>
   distinct (map fst vals) \<Longrightarrow> fst ` set nv \<inter> fst ` set vals = {} \<Longrightarrow>
   setObj_loop obj vals nv =
     Inr (nv @ map (\<lambda>(nm, v). (nm, projr (serialize (the (map_of obj nm)) v))) vals)"
proof (induction vals arbitrary: nv)
  case Nil
  then show ?case by simp
next
  case (Cons a vals)
  obtain nm v where a: "a = (nm, v)" by (cases a)
  from Cons.prems a obtain type where t: "map_of obj nm = Some type" by auto
  from Cons.prems a t obtain s where s: "serialize type v = Inr s" by auto
  have fresh: "nm \<notin> fst ` set nv" using Cons.prems a by auto
  have nv': "obj_set nv nm s = nv @ [(nm, s)]"
    by (simp add: obj_set_def update_fresh [OF fresh])
  have "fst ` set (nv @ [(nm, s)]) \<inter> fst ` set vals = {}"
    using Cons.prems a by auto
  from Cons.IH [OF _ _ _ this] Cons.prems
  have "setObj_loop obj vals (nv @ [(nm, s)]) =
     Inr ((nv @ [(nm, s)]) @ map (\<lambda>(nm, v). (nm, projr (serialize (the (map_of obj nm)) v))) vals)"
    by simp
  then show ?case
    by (simp add: a t s obj_get_def nv')
qed

text \<open>
  C8. \<open>values\<close> is an object, so its field names are distinct. If one of them is not
  a key of the schema, \<open>setObj(schema, values)\<close> throws and returns no facade: no update
  is applied. (The error is \<open>Type for "<name>" not found in object\<close>, unless a field
  before it fails to serialize or the name is one that every object inherits, for which
  the call of \<open>type.serialize\<close> is the TypeError.) If every field name is a key of the
  schema, the loop over the fields throws only what a field's \<open>serialize\<close> throws, and
  when all fields serialize, the result is that of \<open>setInternal\<close> on the one mapping
  of every field name to its serialized values, in the order of the fields.
\<close>

theorem setObj_schema_check:
  assumes "distinct (map fst vals)"
  shows "((\<exists>nm\<in>set (map fst vals). map_of obj nm = None) \<longrightarrow> (\<exists>e. setObj obj vals S = Inl e)) \<and>
     ((\<forall>nm\<in>set (map fst vals). map_of obj nm \<noteq> None) \<longrightarrow>
        (\<forall>e. setObj_loop obj vals [] = Inl e \<longrightarrow>
             (\<exists>(nm, v)\<in>set vals. serialize (the (map_of obj nm)) v = Inl e)) \<and>
        ((\<forall>(nm, v)\<in>set vals. \<exists>s. serialize (the (map_of obj nm)) v = Inr s) \<longrightarrow>
           setObj obj vals S =
             setInternal (map (\<lambda>(nm, v). (nm, projr (serialize (the (map_of obj nm)) v))) vals) S))"
proof (intro conjI impI allI)
  assume "\<exists>nm\<in>set (map fst vals). map_of obj nm = None"
  from setObj_loop_missing [OF this, of "[]"] show "\<exists>e. setObj obj vals S = Inl e"
    by (auto simp: setObj_def)
next
  fix e
  assume "\<forall>nm\<in>set (map fst vals). map_of obj nm \<noteq> None" "setObj_loop obj vals [] = Inl e"
  then show "\<exists>(nm, v)\<in>set vals. serialize (the (map_of obj nm)) v = Inl e"
    by (rule setObj_loop_error)
next
  assume "\<forall>nm\<in>set (map fst vals). map_of obj nm \<noteq> None"
    "\<forall>(nm, v)\<in>set vals. \<exists>s. serialize (the (map_of obj nm)) v = Inr s"
  from setObj_loop_all [OF this assms, of "[]"]
  show "setObj obj vals S =
     setInternal (map (\<lambda>(nm, v). (nm, projr (serialize (the (map_of obj nm)) v))) vals) S"
    by (simp add: setObj_def)
qed

theorem setObj_schema_check_witness:
  \<open>distinct (map fst [(''a'', Str ''3'' :: unit jsval), (''b'', Null)]) \<and>
   map_of [(''a'', rString :: unit TDatatype)] ''b'' = None \<and>
   setObj [(''a'', rString :: unit TDatatype)] [(''a'', Str ''3''), (''b'', Null)]
     (safeSearchParams [(''a'', ''1''), (''b'', ''2''), (''c'', ''hey'')]) =
     Inl (Error ''Type for "b" not found in object'') \<and>
   setObj [(''a'', rString :: unit TDatatype), (''b'', rString)] [(''a'', Str ''3''), (''b'', Null)]
     (safeSearchParams [(''a'', ''1''), (''b'', ''2''), (''c'', ''hey'')]) =
     setInternal [(''a'', [''3'']), (''b'', [])]
       (safeSearchParams [(''a'', ''1''), (''b'', ''2''), (''c'', ''hey'')]) \<and>
   setInternal [(''a'', [''3'']), (''b'', [])]
     (safeSearchParams [(''a'', ''1''), (''b'', ''2''), (''c'', ''hey'')]) =
     Inr (safeSearchParams [(''a'', ''3''), (''c'', ''hey'')])\<close>
proof -
  let ?S = "safeSearchParams [(''a'', ''1''), (''b'', ''2''), (''c'', ''hey'')]"
  let ?vals = "[(''a'', Str ''3'' :: unit jsval), (''b'', Null)]"
  have d: "distinct (map fst ?vals)" by simp
  have s: "serialize (rString :: unit TDatatype) (Str ''3'') = Inr [''3'']"
    "serialize (rString :: unit TDatatype) Null = Inr []"
    by (simp_all add: rString_def)
  have 1: \<open>setObj [(''a'', rString :: unit TDatatype)] ?vals ?S =
     Inl (Error ''Type for "b" not found in object'')\<close>
    using setObj_schema_check [OF d, of "[(''a'', rString :: unit TDatatype)]" ?S]
    by (simp add: setObj_def obj_get_def obj_set_def Object_prototype_def s)
  have 2: "setObj [(''a'', rString :: unit TDatatype), (''b'', rString)] ?vals ?S =
     setInternal [(''a'', [''3'']), (''b'', [])] ?S"
    using setObj_schema_check [OF d, of "[(''a'', rString :: unit TDatatype), (''b'', rString)]" ?S]
    by (simp add: s)
  have 3: "setInternal [(''a'', [''3'']), (''b'', [])] ?S =
     Inr (safeSearchParams [(''a'', ''3''), (''c'', ''hey'')])"
    by (simp add: setInternal_def safeSearchParams_def obj_get_def obj_set_def
          Object_prototype_def remaining_def)
  show ?thesis
    using 1 2 3 by simp
qed

subsection \<open>The merge on a sequence with a key that every object inherits\<close>

text \<open>
  C1, at a failing input. The sequence \<open>toString=1&a=2\<close> has the key \<open>toString\<close>;
  the update \<open>set("a", rString(), "x")\<close> does not name it. \<open>queues["toString"]\<close> is
  the function that \<open>queues\<close> inherits, of \<open>length\<close> 0, so the entry is taken for an
  entry of an updated key whose queue is empty, and dropped: the result is \<open>a=x\<close>. On
  \<open>constructor=1&a=2\<close> the inherited function has \<open>length\<close> 1 and the same update
  throws a TypeError.
\<close>

theorem set_drops_entry_with_inherited_name:
  "set' ''a'' (rString :: unit TDatatype) (Str ''x'')
     (safeSearchParams [(''toString'', ''1''), (''a'', ''2'')]) =
     Inr (safeSearchParams [(''a'', ''x'')]) \<and>
   set' ''a'' (rString :: unit TDatatype) (Str ''x'')
     (safeSearchParams [(''constructor'', ''1''), (''a'', ''2'')]) =
     Inl (TypeError ''queue.shift is not a function'')"
  by (simp add: set'_def rString_def setInternal_def safeSearchParams_def obj_get_def obj_set_def
        Object_prototype_def remaining_def)

text \<open>
  C2, at a failing input. On \<open>toString=1&a=2\<close>, \<open>set("a", rString(), null)\<close>
  serializes to the empty list and returns the empty sequence, while \<open>delete("a")\<close>
  returns \<open>toString=1\<close>.
\<close>

theorem set_to_nothing_is_not_delete:
  "serialize (rString :: unit TDatatype) Null = Inr [] \<and>
   set' ''a'' (rString :: unit TDatatype) Null
     (safeSearchParams [(''toString'', ''1''), (''a'', ''2'')]) =
     Inr (safeSearchParams []) \<and>
   del ''a'' (safeSearchParams [(''toString'', ''1''), (''a'', ''2'')]) =
     safeSearchParams [(''toString'', ''1'')]"
  by (simp add: set'_def del_def rString_def setInternal_def safeSearchParams_def obj_get_def
        obj_set_def Object_prototype_def remaining_def URLSearchParams_delete_def)

subsection \<open>The merge on the other sequences\<close>

text \<open>
  When every key of the sequence that the mapping does not name is also no name that
  objects inherit, \<open>setInternal\<close> returns the merge that the specification describes.
\<close>

lemma update_map_distinct:
  "distinct (map fst vals) \<Longrightarrow> map_of vals k = Some q \<Longrightarrow>
   AList.update k r (map (\<lambda>(k', q'). (k', g k' q')) vals) =
   map (\<lambda>(k', q'). (k', if k' = k then r else g k' q')) vals"
proof (induction vals)
  case Nil
  then show ?case by simp
next
  case (Cons a vals)
  obtain k' q' where a: "a = (k', q')" by (cases a)
  show ?case
  proof (cases "k' = k")
    case True
    have "k \<notin> fst ` set vals" using Cons.prems a True by auto
    then have "map (\<lambda>(k', q'). (k', if k' = k then r else g k' q')) vals =
               map (\<lambda>(k', q'). (k', g k' q')) vals"
      by (auto simp: rev_image_eqI)
    then show ?thesis using True a by simp
  next
    case False
    then show ?thesis using Cons a by simp
  qed
qed

lemma map_of_queues:
  "map_of (map (\<lambda>(k, q). (k, g k q)) vals) k = map_option (g k) (map_of vals k)"
  by (induction vals) auto

lemma walk_refines:
  assumes "distinct (map fst vals)"
    and "\<forall>k\<in>set (map fst es). map_of vals k = None \<longrightarrow> map_of Object_prototype k = None"
  shows "setInternal_walk es (map (\<lambda>(k, q). (k, drop (seen k) q)) vals) acc =
     Inr (acc @ replace_in_place (map_of vals) seen es,
          map (\<lambda>(k, q). (k, drop (seen k + count_list (map fst es) k) q)) vals)"
  using assms(2)
proof (induction es arbitrary: seen acc)
  case Nil
  then show ?case by simp
next
  case (Cons e es)
  obtain k v where e: "e = (k, v)" by (cases e)
  let ?qs = "\<lambda>seen. map (\<lambda>(k, q). (k, drop (seen k) q)) vals"
  have safe: "\<forall>k\<in>set (map fst es). map_of vals k = None \<longrightarrow> map_of Object_prototype k = None"
    using Cons.prems by simp
  show ?case
  proof (cases "map_of vals k")
    case None
    then have np: "obj_get (?qs seen) k = NoProperty"
      using Cons.prems e by (simp add: obj_get_def map_of_queues)
    have "k \<notin> fst ` set vals" using None by (simp add: map_of_eq_None_iff)
    then have same: "map (\<lambda>(k', q). (k', drop (seen k' + count_list (map fst (e # es)) k') q)) vals =
        map (\<lambda>(k', q). (k', drop (seen k' + count_list (map fst es) k') q)) vals"
      using e by (auto simp: rev_image_eqI)
    have lhs: "setInternal_walk (e # es) (?qs seen) acc =
        setInternal_walk es (?qs seen) (acc @ [(k, v)])"
      using np by (simp add: e)
    have rip: "replace_in_place (map_of vals) seen (e # es) =
        (k, v) # replace_in_place (map_of vals) seen es"
      using None by (simp add: e)
    have app: "acc @ (k, v) # replace_in_place (map_of vals) seen es =
        (acc @ [(k, v)]) @ replace_in_place (map_of vals) seen es"
      by simp
    show ?thesis
      unfolding lhs rip same app
      by (rule Cons.IH [OF safe])
  next
    case (Some q)
    let ?seen' = "\<lambda>a. if a = k then Suc (seen k) else seen a"
    have res: "map (\<lambda>(k', q). (k', drop (?seen' k' + count_list (map fst es) k') q)) vals =
        map (\<lambda>(k', q). (k', drop (seen k' + count_list (map fst (e # es)) k') q)) vals"
      using e by auto
    show ?thesis
    proof (cases "seen k < length q")
      case True
      then have dq: "drop (seen k) q = q ! seen k # drop (Suc (seen k)) q"
        by (simp add: Cons_nth_drop_Suc)
      have own: "obj_get (?qs seen) k = OwnProperty (q ! seen k # drop (Suc (seen k)) q)"
        using Some dq by (simp add: obj_get_def map_of_queues)
      have "obj_set (?qs seen) k (drop (Suc (seen k)) q) =
          map (\<lambda>(k', q'). (k', if k' = k then drop (Suc (seen k)) q else drop (seen k') q')) vals"
        unfolding obj_set_def by (rule update_map_distinct [OF assms(1) Some])
      also have "\<dots> = ?qs ?seen'"
        using Some by (auto dest!: map_of_is_SomeI [OF assms(1)])
      finally have upd: "obj_set (?qs seen) k (drop (Suc (seen k)) q) = ?qs ?seen'" .
      have lhs: "setInternal_walk (e # es) (?qs seen) acc =
          setInternal_walk es (?qs ?seen') (acc @ [(k, q ! seen k)])"
        using own upd by (simp add: e)
      have rip: "replace_in_place (map_of vals) seen (e # es) =
          (k, q ! seen k) # replace_in_place (map_of vals) ?seen' es"
        using Some True by (simp add: e)
      have app: "acc @ (k, q ! seen k) # replace_in_place (map_of vals) ?seen' es =
          (acc @ [(k, q ! seen k)]) @ replace_in_place (map_of vals) ?seen' es"
        by simp
      show ?thesis
        unfolding lhs rip res [symmetric] app
        by (rule Cons.IH [OF safe])
    next
      case False
      then have dq: "drop (seen k) q = []" by simp
      have own: "obj_get (?qs seen) k = OwnProperty []"
        using Some dq by (simp add: obj_get_def map_of_queues)
      have qs: "?qs seen = ?qs ?seen'"
        using Some False by (auto dest!: map_of_is_SomeI [OF assms(1)])
      have "setInternal_walk (e # es) (?qs seen) acc = setInternal_walk es (?qs seen) acc"
        using own by (simp add: e)
      then have lhs: "setInternal_walk (e # es) (?qs seen) acc =
          setInternal_walk es (?qs ?seen') acc"
        unfolding qs .
      have rip: "replace_in_place (map_of vals) seen (e # es) =
          replace_in_place (map_of vals) ?seen' es"
        using Some False by (simp add: e)
      show ?thesis
        unfolding lhs rip res [symmetric]
        by (rule Cons.IH [OF safe])
    qed
  qed
qed

lemma setInternal_refines_merge_spec:
  assumes "distinct (map fst vals)"
    and "\<forall>k\<in>set (map fst (urlSearchParams S)). map_of vals k = None \<longrightarrow> map_of Object_prototype k = None"
  shows "setInternal vals S = Inr (safeSearchParams (merge_spec vals (urlSearchParams S)))"
proof -
  have "map (\<lambda>(k, q). (k, drop 0 q)) vals = vals" by (induction vals) auto
  with walk_refines [OF assms, of "\<lambda>k. 0" "[]"] show ?thesis
    by (simp add: setInternal_def merge_spec_def remaining_def comp_def split_def)
qed

text \<open>
  In the merge, a key of the mapping has exactly the mapping's values, in their order;
  the entries of the other keys are those of the sequence, in their order.
\<close>

lemma getAll_append:
  "URLSearchParams_getAll (xs @ ys) k = URLSearchParams_getAll xs k @ URLSearchParams_getAll ys k"
  by (simp add: URLSearchParams_getAll_def)

lemma getAll_replace_in_place:
  "new k = Some q \<Longrightarrow>
   URLSearchParams_getAll (replace_in_place new seen es) k =
   take (count_list (map fst es) k) (drop (seen k) q)"
proof (induction es arbitrary: seen)
  case Nil
  then show ?case by (simp add: URLSearchParams_getAll_def)
next
  case (Cons e es)
  obtain k' v where e: "e = (k', v)" by (cases e)
  show ?case
  proof (cases "k' = k")
    case True
    show ?thesis
    proof (cases "seen k < length q")
      case lt: True
      then have "drop (seen k) q = q ! seen k # drop (Suc (seen k)) q"
        by (simp add: Cons_nth_drop_Suc)
      with Cons.IH [OF Cons.prems, of "\<lambda>a. if a = k then Suc (seen k) else seen a"] Cons.prems True lt show ?thesis
        by (simp add: e getAll_append URLSearchParams_getAll_def)
    next
      case False
      with Cons.IH [OF Cons.prems, of "\<lambda>a. if a = k then Suc (seen k) else seen a"] Cons.prems True show ?thesis
        by (simp add: e)
    qed
  next
    case False
    with Cons.IH [OF Cons.prems] show ?thesis
      by (cases "new k'") (simp_all add: e getAll_append URLSearchParams_getAll_def)
  qed
qed

lemma getAll_leftover:
  "distinct (map fst vals) \<Longrightarrow> map_of vals k = Some q \<Longrightarrow>
   URLSearchParams_getAll (concat (map (\<lambda>(k, q). map (Pair k) (drop (n k) q)) vals)) k =
   drop (n k) q"
proof (induction vals)
  case Nil
  then show ?case by simp
next
  case (Cons a vals)
  obtain k' q' where a: "a = (k', q')" by (cases a)
  have other: "k' \<noteq> k \<Longrightarrow> URLSearchParams_getAll (map (Pair k') (drop (n k') q')) k = []"
    by (simp add: URLSearchParams_getAll_def filter_empty_conv)
  have this_one: "URLSearchParams_getAll (map (Pair k) (drop (n k) q)) k = drop (n k) q"
    by (simp add: URLSearchParams_getAll_def comp_def)
  show ?case
  proof (cases "k' = k")
    case True
    then have "k \<notin> fst ` set vals" using Cons.prems a by auto
    then have "URLSearchParams_getAll (concat (map (\<lambda>(k, q). map (Pair k) (drop (n k) q)) vals)) k = []"
      by (induction vals) (auto simp: getAll_append URLSearchParams_getAll_def filter_empty_conv)
    with True Cons.prems this_one show ?thesis
      by (simp add: a getAll_append)
  next
    case False
    with Cons other show ?thesis
      by (simp add: a getAll_append)
  qed
qed

lemma merge_spec_occurrences:
  assumes "distinct (map fst vals)" and "map_of vals k = Some q"
  shows "URLSearchParams_getAll (merge_spec vals es) k = q"
  unfolding merge_spec_def getAll_append
  by (simp add: getAll_replace_in_place [of "map_of vals", OF assms(2)] getAll_leftover [OF assms])

lemma replace_in_place_untouched:
  "filter (\<lambda>e. new (fst e) = None) (replace_in_place new seen es) =
   filter (\<lambda>e. new (fst e) = None) es"
  by (induction new seen es rule: replace_in_place.induct) (auto split: option.splits)

lemma merge_spec_untouched:
  "filter (\<lambda>e. map_of vals (fst e) = None) (merge_spec vals es) =
   filter (\<lambda>e. map_of vals (fst e) = None) es"
proof -
  have "filter (\<lambda>e. map_of vals (fst e) = None)
          (concat (map (\<lambda>(k, q). map (Pair k) (drop (count_list (map fst es) k) q)) vals')) = []"
    if "set vals' \<subseteq> set vals" for vals'
    using that
    by (induction vals') (auto simp: filter_empty_conv map_of_eq_None_iff rev_image_eqI dest: in_set_dropD)
  from this [of vals] show ?thesis
    by (simp add: merge_spec_def replace_in_place_untouched)
qed

text \<open>
  The merge of one key with no value is \<open>delete\<close>; so is \<open>set\<close> with a value that
  serializes to the empty list, on a sequence whose other keys are no inherited names.
\<close>

lemma merge_spec_empty:
  "merge_spec [(nm, [])] es = URLSearchParams_delete es nm"
proof -
  have "replace_in_place (map_of [(nm, [])]) seen es = filter (\<lambda>e. fst e \<noteq> nm) es" for seen
    by (induction es arbitrary: seen) auto
  then show ?thesis
    by (simp add: merge_spec_def URLSearchParams_delete_def)
qed

lemma set_empty_is_delete:
  assumes "serialize type v = Inr []"
    and "\<forall>k\<in>set (map fst (urlSearchParams S)). k \<noteq> nm \<longrightarrow> map_of Object_prototype k = None"
  shows "set' nm type v S = Inr (del nm S)"
  using setInternal_refines_merge_spec [of "[(nm, [])]" S] assms
  by (simp add: set'_def del_def merge_spec_empty)

subsection \<open>Sorting\<close>

lemma sort_key_twice: "sort_key f (sort_key f xs) = sort_key f xs"
  by (simp add: sort_key_id_if_sorted)

text \<open>
  C9. \<open>sort()\<close> is idempotent: sorting the facade that \<open>sort()\<close> returned yields a facade
  with the same ordered sequence (and, like every new facade, an empty cache).
\<close>

theorem sort_idempotent: "sort' (sort' S) = sort' S"
  by (simp add: sort'_def safeSearchParams_def URLSearchParams_sort_def sort_key_twice)

end
